theory Spec2Isabelle
  imports Main "HOL-Library.Multiset"
begin

section \<open>The scraper's data\<close>

text \<open>
  \<^verbatim>\<open>AdvancedWebScraper\<close> keeps four things that the functions below read or change:
  \<^item> \<^verbatim>\<open>self.results\<close>, a dict with the four keys "Headings", "Text", "Images" and "Links",
    created in \<^verbatim>\<open>__init__\<close> and never given another key: a function from the four keys
    to the list stored under each;
  \<^item> the table \<^verbatim>\<open>scraped_data\<close> behind \<^verbatim>\<open>self.conn\<close>: the committed rows
    (url, category, content), in insertion order;
  \<^item> the number of INSERT statements sent on the connection so far (the database
    answers the n-th one by accepting or raising);
  \<^item> what the run did to the outside: requests sent, sleeps, log lines, in order.
\<close>

datatype category = Headings | Text | Images | Links

type_synonym row = "string \<times> string \<times> string"

datatype event =
    Request string nat
  | Sleep nat
  | Warning string int nat
  | RequestError string string
  | FetchFailed string
  | Scraped string

record scraper =
  results :: "category \<Rightarrow> string list"
  table :: "row list"
  executed :: nat
  events :: "event list"

definition emit :: "event \<Rightarrow> scraper \<Rightarrow> scraper" where
  "emit e st = st\<lparr>events := events st @ [e]\<rparr>"

section \<open>fetch\_url\<close>

text \<open>
  One pass through the \<^verbatim>\<open>try\<close> block of \<^verbatim>\<open>fetch_url\<close> ends in one of two ways:
  \<^verbatim>\<open>session.get\<close> gave a response with a status (and \<^verbatim>\<open>response.text()\<close> its body),
  or something in the block raised an \<^verbatim>\<open>Exception\<close> (a timeout, a transport error,
  a decoding error). The network is a function from the retry index to what that
  attempt meets.
\<close>

datatype outcome = Response int string | Raised string

definition max_retries :: nat where
  "max_retries = 3"

text \<open>How one iteration of a loop ends: with a \<^verbatim>\<open>return\<close>, or by going on.\<close>

datatype 'a flow = Return 'a | Continue

text \<open>
  The body of \<^verbatim>\<open>for retry in range(max_retries)\<close>:
  \<^verbatim>\<open>
  try:
      async with session.get(url, ...) as response:
          if response.status == 200:
              return await response.text()
          else:
              self.logger.warning(f"... Retrying in {2 ** retry} seconds...")
              await asyncio.sleep(2 ** retry)
  except Exception as e:
      self.logger.error(f"Error during request to {url}: {e}")
      if retry == max_retries - 1:
          return None
  \<close>
\<close>

definition attempt :: "(nat \<Rightarrow> outcome) \<Rightarrow> string \<Rightarrow> nat \<Rightarrow> scraper \<Rightarrow> string option flow \<times> scraper" where
  "attempt net url retry st =
     (let st1 = emit (Request url retry) st in
      case net retry of
        Response status body \<Rightarrow>
          if status = 200 then (Return (Some body), st1)
          else (Continue, emit (Sleep (2 ^ retry)) (emit (Warning url status (2 ^ retry)) st1))
      | Raised e \<Rightarrow>
          (let st2 = emit (RequestError url e) st1 in
           if retry = max_retries - 1 then (Return None, st2) else (Continue, st2)))"

text \<open>The loop over the retry indices, and the \<^verbatim>\<open>return None\<close> after it.\<close>

fun fetch_loop :: "(nat \<Rightarrow> outcome) \<Rightarrow> string \<Rightarrow> nat list \<Rightarrow> scraper \<Rightarrow> string option \<times> scraper" where
  "fetch_loop net url [] st = (None, st)"
| "fetch_loop net url (retry # rest) st =
     (case attempt net url retry st of
        (Return v, st1) \<Rightarrow> (v, st1)
      | (Continue, st1) \<Rightarrow> fetch_loop net url rest st1)"

definition fetch_url :: "(nat \<Rightarrow> outcome) \<Rightarrow> string \<Rightarrow> scraper \<Rightarrow> string option \<times> scraper" where
  "fetch_url net url st = fetch_loop net url [0..<max_retries] st"

section \<open>The parsed page\<close>

text \<open>
  What \<^verbatim>\<open>BeautifulSoup(html_content, "html.parser")\<close> returns, as far as
  \<^verbatim>\<open>extract_data\<close> looks at it: a forest of tags (name, attributes, children) and
  strings. \<^verbatim>\<open>find_all\<close> walks the descendants in document order, \<^verbatim>\<open>.text\<close>
  joins the strings below a tag, \<^verbatim>\<open>.get(key)\<close> reads an attribute and gives
  \<^verbatim>\<open>None\<close> when the tag does not carry it. Strings that \<^verbatim>\<open>.text\<close> leaves out
  (comments, declarations, the content of \<^verbatim>\<open>script\<close> and \<^verbatim>\<open>style\<close>) are not in the
  forest; of a repeated attribute the forest has the value the parser kept.
\<close>

datatype node = Tag string "(string \<times> string) list" "node list" | NavigableString string

fun tags_of :: "node \<Rightarrow> node list" where
  "tags_of (NavigableString s) = []"
| "tags_of (Tag name attrs children) = Tag name attrs children # concat (map tags_of children)"

fun tag_name :: "node \<Rightarrow> string" where
  "tag_name (Tag name attrs children) = name"
| "tag_name (NavigableString s) = []"

definition find_all :: "string list \<Rightarrow> node list \<Rightarrow> node list" where
  "find_all names soup = filter (\<lambda>t. tag_name t \<in> set names) (concat (map tags_of soup))"

fun get_text :: "node \<Rightarrow> string" where
  "get_text (NavigableString s) = s"
| "get_text (Tag name attrs children) = concat (map get_text children)"

fun get_attr :: "node \<Rightarrow> string \<Rightarrow> string option" where
  "get_attr (Tag name attrs children) key = map_of attrs key"
| "get_attr (NavigableString s) key = None"

text \<open>
  \<^verbatim>\<open>str.strip()\<close> removes the characters for which \<^verbatim>\<open>str.isspace()\<close> holds from both
  ends. A \<^typ>\<open>char\<close> is read as a code point below 256; the white space among these is
  9 to 13, 28 to 32, 133 and 160.
\<close>

definition isspace :: "char \<Rightarrow> bool" where
  "isspace c = ((of_char c :: nat) \<in> {9, 10, 11, 12, 13, 28, 29, 30, 31, 32, 133, 160})"

definition strip :: "string \<Rightarrow> string" where
  "strip s = rev (dropWhile isspace (rev (dropWhile isspace s)))"

text \<open>Python's truth value of \<^verbatim>\<open>None\<close> and of a string: only a non-empty string is true.\<close>

definition truthy :: "string option \<Rightarrow> bool" where
  "truthy v = (case v of None \<Rightarrow> False | Some s \<Rightarrow> s \<noteq> [])"

section \<open>The libraries and the database\<close>

text \<open>
  \<^verbatim>\<open>extract_data\<close> calls three things it does not define. Each is a parameter here,
  so that what is proved holds whatever they answer:
  \<^item> \<^verbatim>\<open>BeautifulSoup(html, "html.parser")\<close>: the forest, or \<^verbatim>\<open>None\<close> when the
    constructor raises (\<^verbatim>\<open>ParserRejectedMarkup\<close>);
  \<^item> \<^verbatim>\<open>urljoin(base, ref)\<close>: the resolved URL, or \<^verbatim>\<open>None\<close> when it raises
    \<^verbatim>\<open>ValueError\<close> (an invalid netloc);
  \<^item> the database: whether the n-th INSERT sent on the connection
    (\<^verbatim>\<open>cursor.execute\<close> followed by \<^verbatim>\<open>conn.commit\<close>) raises.
\<close>

record env =
  parser :: "string \<Rightarrow> node list option"
  urljoin :: "string \<Rightarrow> string \<Rightarrow> string option"
  insert_fails :: "nat \<Rightarrow> bool"

datatype error = DatabaseError nat | ParserRejectedMarkup | ValueError

section \<open>insert\_data and extract\_data\<close>

text \<open>
  \<^verbatim>\<open>insert_data\<close> executes the INSERT and commits. When either raises, the exception
  leaves the function and the table has no new row.
\<close>

definition insert_data :: "env \<Rightarrow> string \<Rightarrow> string \<Rightarrow> string \<Rightarrow> scraper \<Rightarrow> (error + unit) \<times> scraper" where
  "insert_data env url label content st =
     (let n = executed st; st1 = st\<lparr>executed := Suc n\<rparr> in
      if insert_fails env n then (Inl (DatabaseError n), st1)
      else (Inr (), st1\<lparr>table := table st1 @ [(url, label, content)]\<rparr>))"

text \<open>
  Each of the four loops of \<^verbatim>\<open>extract_data\<close>, for instance
  \<^verbatim>\<open>
  for heading in headings:
      self.insert_data(url, "Heading", heading)
      self.results["Headings"].append(heading)
  \<close>
  An exception of \<^verbatim>\<open>insert_data\<close> is not caught: it ends the loop and the function.
\<close>

fun store_items :: "env \<Rightarrow> string \<Rightarrow> string \<Rightarrow> category \<Rightarrow> string list \<Rightarrow> scraper \<Rightarrow> (error + unit) \<times> scraper" where
  "store_items env url label key [] st = (Inr (), st)"
| "store_items env url label key (item # items) st =
     (case insert_data env url label item st of
        (Inl e, st1) \<Rightarrow> (Inl e, st1)
      | (Inr u, st1) \<Rightarrow>
          store_items env url label key items
            (st1\<lparr>results := (results st1)(key := results st1 key @ [item])\<rparr>))"

text \<open>
  The four lists, as the comprehensions build them:
  \<^verbatim>\<open>
  [heading.text.strip() for heading in soup.find_all(['h1', ..., 'h6'])]
  [paragraph.text.strip() for paragraph in soup.find_all("p")]
  [urljoin(url, img.get("src")) for img in soup.find_all("img") if img.get("src")]
  [urljoin(url, link.get("href")) for link in soup.find_all("a") if link.get("href")]
  \<close>
  A comprehension that calls \<^verbatim>\<open>urljoin\<close> raises when one of the calls does.
\<close>

definition heading_texts :: "node list \<Rightarrow> string list" where
  "heading_texts soup =
     map (\<lambda>heading. strip (get_text heading))
       (find_all [''h1'', ''h2'', ''h3'', ''h4'', ''h5'', ''h6''] soup)"

definition paragraph_texts :: "node list \<Rightarrow> string list" where
  "paragraph_texts soup = map (\<lambda>paragraph. strip (get_text paragraph)) (find_all [''p''] soup)"

definition joined :: "env \<Rightarrow> string \<Rightarrow> string \<Rightarrow> node list \<Rightarrow> string list option" where
  "joined env url key tags =
     those (map (\<lambda>t. urljoin env url (the (get_attr t key)))
              (filter (\<lambda>t. truthy (get_attr t key)) tags))"

definition image_urls :: "env \<Rightarrow> string \<Rightarrow> node list \<Rightarrow> string list option" where
  "image_urls env url soup = joined env url ''src'' (find_all [''img''] soup)"

definition link_urls :: "env \<Rightarrow> string \<Rightarrow> node list \<Rightarrow> string list option" where
  "link_urls env url soup = joined env url ''href'' (find_all [''a''] soup)"

text \<open>The body of \<^verbatim>\<open>if html_content:\<close>, statement by statement.\<close>

definition process_page :: "env \<Rightarrow> string \<Rightarrow> string \<Rightarrow> scraper \<Rightarrow> (error + unit) \<times> scraper" where
  "process_page env url html st =
     (case parser env html of
        None \<Rightarrow> (Inl ParserRejectedMarkup, st)
      | Some soup \<Rightarrow>
     (case store_items env url ''Heading'' Headings (heading_texts soup) st of
        (Inl e, st1) \<Rightarrow> (Inl e, st1)
      | (Inr u, st1) \<Rightarrow>
     (case store_items env url ''Text'' Text (paragraph_texts soup) st1 of
        (Inl e, st2) \<Rightarrow> (Inl e, st2)
      | (Inr u, st2) \<Rightarrow>
     (case image_urls env url soup of
        None \<Rightarrow> (Inl ValueError, st2)
      | Some images \<Rightarrow>
     (case store_items env url ''Image'' Images images st2 of
        (Inl e, st3) \<Rightarrow> (Inl e, st3)
      | (Inr u, st3) \<Rightarrow>
     (case link_urls env url soup of
        None \<Rightarrow> (Inl ValueError, st3)
      | Some links \<Rightarrow>
     (case store_items env url ''Link'' Links links st3 of
        (Inl e, st4) \<Rightarrow> (Inl e, st4)
      | (Inr u, st4) \<Rightarrow> (Inr (), emit (Scraped url) st4))))))))"

text \<open>
  What \<^verbatim>\<open>extract_data\<close> does once \<^verbatim>\<open>fetch_url\<close> has returned: the \<^verbatim>\<open>if\<close> on the
  truth value of \<^verbatim>\<open>html_content\<close>, with the error logged in the \<^verbatim>\<open>else\<close> branch.
\<close>

definition on_fetched :: "env \<Rightarrow> string \<Rightarrow> string option \<Rightarrow> scraper \<Rightarrow> (error + unit) \<times> scraper" where
  "on_fetched env url html_content st =
     (if truthy html_content then process_page env url (the html_content) st
      else (Inr (), emit (FetchFailed url) st))"

definition extract_data :: "env \<Rightarrow> (nat \<Rightarrow> outcome) \<Rightarrow> string \<Rightarrow> scraper \<Rightarrow> (error + unit) \<times> scraper" where
  "extract_data env net url st =
     (case fetch_url net url st of (html_content, st1) \<Rightarrow> on_fetched env url html_content st1)"

section \<open>scrape\_multiple\_urls\<close>

text \<open>
  \<^verbatim>\<open>
  tasks = []
  async with aiohttp.ClientSession() as session:
      for url in urls:
          tasks.append(self.extract_data(url))
      await asyncio.gather(*tasks)
  \<close>
  \<^verbatim>\<open>asyncio.gather\<close> runs the coroutines on one event loop. A coroutine runs alone
  from one \<^verbatim>\<open>await\<close> that suspends it to the next; the loop then resumes whichever
  suspended coroutine it chooses. In \<^verbatim>\<open>extract_data\<close> the suspending awaits are those
  of \<^verbatim>\<open>fetch_url\<close> (\<^verbatim>\<open>session.get\<close>, \<^verbatim>\<open>response.text()\<close>, \<^verbatim>\<open>asyncio.sleep\<close>);
  from the return of \<^verbatim>\<open>fetch_url\<close> to the last log line there is none. (The session
  opened in \<^verbatim>\<open>scrape_multiple_urls\<close> is not used: \<^verbatim>\<open>extract_data\<close> opens its own.)

  A task is a coroutine of \<^verbatim>\<open>extract_data\<close> that is suspended in the loop of
  \<^verbatim>\<open>fetch_url\<close> before the attempt with a given retry index, or one that has
  ended.
\<close>

datatype task = Running string nat | Done

fun is_done :: "task \<Rightarrow> bool" where
  "is_done Done = True"
| "is_done (Running url retry) = False"

fun finish :: "(error + unit) \<times> scraper \<Rightarrow> (error + task) \<times> scraper" where
  "finish (Inl e, st) = (Inl e, st)"
| "finish (Inr u, st) = (Inr Done, st)"

text \<open>
  Resuming a task runs one attempt. When the attempt returns from \<^verbatim>\<open>fetch_url\<close>, the
  rest of \<^verbatim>\<open>extract_data\<close> runs with it; otherwise the task is suspended again before
  the next attempt. A task resumed when \<^verbatim>\<open>range(max_retries)\<close> is used up (after the
  sleep that follows the last status) leaves the loop with \<^verbatim>\<open>None\<close>. Nothing in an
  attempt touches \<^verbatim>\<open>self.results\<close> or the table, so the log lines of one attempt are
  kept together and the suspensions inside it are not told apart.
\<close>

definition resume :: "env \<Rightarrow> (nat \<Rightarrow> outcome) \<Rightarrow> string \<Rightarrow> nat \<Rightarrow> scraper \<Rightarrow> (error + task) \<times> scraper" where
  "resume env net url retry st =
     (if retry < max_retries then
        (case attempt net url retry st of
           (Return v, st1) \<Rightarrow> finish (on_fetched env url v st1)
         | (Continue, st1) \<Rightarrow> (Inr (Running url (Suc retry)), st1))
      else finish (on_fetched env url None st))"

text \<open>
  How the \<^verbatim>\<open>await asyncio.gather(*tasks)\<close> ends: every coroutine has returned; or one
  raised, and \<^verbatim>\<open>gather\<close> hands the first exception to the caller; or (for a schedule
  that stops early, with no exception) coroutines are still suspended.

  \<^verbatim>\<open>gather\<close> is called without \<^verbatim>\<open>return_exceptions\<close>: when a coroutine raises, the
  others are not cancelled. The caller sees the exception when the event loop next runs
  it, and until then the loop goes on resuming the other coroutines, which send their
  INSERTs and append. So a task that raises ends (it is \<open>Done\<close>), the first exception is
  kept, and the schedule goes on; its end is the moment the caller sees the exception.

  The schedule is the sequence of task indices the event loop resumes; \<open>nets i\<close> is
  the network as the i-th task meets it. An index that names no task, or a task that
  has ended, is passed over.
\<close>

datatype gathered = Returned | Propagated error | Pending

fun gather :: "env \<Rightarrow> (nat \<Rightarrow> nat \<Rightarrow> outcome) \<Rightarrow> nat list \<Rightarrow> task list \<Rightarrow> error option \<Rightarrow> scraper \<Rightarrow> gathered \<times> scraper" where
  "gather env nets [] tasks raised st =
     (case raised of
        Some e \<Rightarrow> (Propagated e, st)
      | None \<Rightarrow> (if list_all is_done tasks then Returned else Pending, st))"
| "gather env nets (i # sched) tasks raised st =
     (if i < length tasks then
        (case tasks ! i of
           Done \<Rightarrow> gather env nets sched tasks raised st
         | Running url retry \<Rightarrow>
             (case resume env (nets i) url retry st of
                (Inl e, st1) \<Rightarrow>
                  gather env nets sched (tasks[i := Done])
                    (case raised of None \<Rightarrow> Some e | Some first \<Rightarrow> Some first) st1
              | (Inr t, st1) \<Rightarrow> gather env nets sched (tasks[i := t]) raised st1))
      else gather env nets sched tasks raised st)"

definition scrape_multiple_urls :: "env \<Rightarrow> (nat \<Rightarrow> nat \<Rightarrow> outcome) \<Rightarrow> nat list \<Rightarrow> string list \<Rightarrow> scraper \<Rightarrow> gathered \<times> scraper" where
  "scrape_multiple_urls env nets sched urls st =
     gather env nets sched (map (\<lambda>url. Running url 0) urls) None st"

section \<open>The input loop of main\<close>

text \<open>
  \<^verbatim>\<open>
  urls = []
  while True:
      url = input("Please enter a URL (or press Enter to finish): ")
      if url:
          urls.append(url)
      else:
          if urls:
              break
          else:
              print("Please enter at least one URL.")
  \<close>
  The lines of standard input are a list; \<^verbatim>\<open>input()\<close> at its end raises
  \<^verbatim>\<open>EOFError\<close>, which \<^verbatim>\<open>main\<close> catches after the loop (result \<^verbatim>\<open>None\<close>: the
  scraper is not run). The number counts how often "Please enter at least one URL."
  was printed.
\<close>

fun input_urls :: "string list \<Rightarrow> string list \<Rightarrow> nat \<times> string list option" where
  "input_urls [] urls = (0, None)"
| "input_urls (url # lines) urls =
     (if url \<noteq> [] then input_urls lines (urls @ [url])
      else if urls \<noteq> [] then (0, Some urls)
      else (case input_urls lines urls of (n, r) \<Rightarrow> (Suc n, r)))"

section \<open>What the statements below speak of\<close>

text \<open>
  The label \<^verbatim>\<open>extract_data\<close> writes in the category column for the items it appends
  under each key of \<^verbatim>\<open>self.results\<close>.
\<close>

fun label_of :: "category \<Rightarrow> string" where
  "label_of Headings = ''Heading''"
| "label_of Text = ''Text''"
| "label_of Images = ''Image''"
| "label_of Links = ''Link''"

text \<open>The contents of the rows that carry the label of a key, in table order.\<close>

definition stored :: "category \<Rightarrow> row list \<Rightarrow> string list" where
  "stored key rows = map (\<lambda>row. snd (snd row)) (filter (\<lambda>row. fst (snd row) = label_of key) rows)"

text \<open>
  \<open>extends urls st st'\<close>: the table of \<open>st'\<close> is the table of \<open>st\<close> followed by new
  rows, every new row is a row of one of \<open>urls\<close>, and under each key \<^verbatim>\<open>self.results\<close> grew by
  exactly the contents of the new rows of that key's label, in the same order.
\<close>

definition extends :: "string list \<Rightarrow> scraper \<Rightarrow> scraper \<Rightarrow> bool" where
  "extends urls st st' =
     (let new = drop (length (table st)) (table st') in
      table st' = table st @ new \<and> list_all (\<lambda>row. fst row \<in> set urls) new \<and>
      list_all (\<lambda>key. results st' key = results st key @ stored key new) [Headings, Text, Images, Links])"

text \<open>The state \<^verbatim>\<open>__init__\<close> leaves, with an empty table.\<close>

definition init :: scraper where
  "init = \<lparr>results = (\<lambda>key. []), table = [], executed = 0, events = []\<rparr>"














text \<open>
  The requests among a list of events that the network answers with status 200.
\<close>

fun answered_ok :: "(nat \<Rightarrow> outcome) \<Rightarrow> event \<Rightarrow> bool" where
  "answered_ok net (Request url retry) =
     (case net retry of Response status body \<Rightarrow> status = 200 | Raised e \<Rightarrow> False)"
| "answered_ok net e = False"

definition successful_fetches :: "(nat \<Rightarrow> outcome) \<Rightarrow> event list \<Rightarrow> nat" where
  "successful_fetches net evs = length (filter (answered_ok net) evs)"

section \<open>The two library calls on plain markup\<close>

text \<open>
  For one instance below the two library calls are computed, on a fragment where what
  they do is plain.

  \<^verbatim>\<open>BeautifulSoup(markup, "html.parser")\<close>, for markup of printable ASCII characters
  made of text without \<^verbatim>\<open><\<close> and \<^verbatim>\<open>&\<close>, start tags with lower-case names and
  double-quoted attribute values, and end tags of open tags. \<^verbatim>\<open>html.parser\<close> hands
  the tree builder one start tag, end tag or run of text at a time:
\<close>

datatype token = Data string | StartTag string "(string \<times> string) list" | EndTag string

text \<open>
  The scanner reads one character at a time; its state says what it is in the middle
  of (the strings it is collecting are kept reversed). A character with no place in the
  fragment ends the scan with \<^verbatim>\<open>None\<close>: a comment or declaration, a character
  reference, an upper-case name, a value without double quotes, a repeated attribute, a
  self-closing tag.
\<close>

datatype scanning =
    InText string
  | AfterLt
  | InStartName string
  | InEndName string
  | InTag string "(string \<times> string) list"
  | InAttrName string "(string \<times> string) list" string
  | AfterEq string "(string \<times> string) list" string
  | InValue string "(string \<times> string) list" string string
  | AfterValue string "(string \<times> string) list"

definition letter :: "char \<Rightarrow> bool" where
  "letter c = (c \<in> set ''abcdefghijklmnopqrstuvwxyz'')"

definition name_char :: "char \<Rightarrow> bool" where
  "name_char c = (c \<in> set ''abcdefghijklmnopqrstuvwxyz0123456789'')"

definition printable :: "char \<Rightarrow> bool" where
  "printable c = (32 \<le> (of_char c :: nat) \<and> (of_char c :: nat) \<le> 126)"

definition text_char :: "char \<Rightarrow> bool" where
  "text_char c = (printable c \<and> c \<notin> set ''<&'')"

definition value_char :: "char \<Rightarrow> bool" where
  "value_char c = (printable c \<and> c \<notin> set [CHR ''<'', CHR ''>'', CHR ''&'', CHR 0x22])"

definition data :: "string \<Rightarrow> token list" where
  "data acc = (if acc = [] then [] else [Data (rev acc)])"

definition scan_step :: "scanning \<Rightarrow> char \<Rightarrow> (scanning \<times> token list) option" where
  "scan_step s c =
     (case s of
        InText acc \<Rightarrow>
          if c = CHR ''<'' then Some (AfterLt, data acc)
          else if text_char c then Some (InText (c # acc), [])
          else None
      | AfterLt \<Rightarrow>
          if c = CHR ''/'' then Some (InEndName [], [])
          else if letter c then Some (InStartName [c], [])
          else None
      | InStartName name \<Rightarrow>
          if name_char c then Some (InStartName (c # name), [])
          else if c = CHR '' '' then Some (InTag (rev name) [], [])
          else if c = CHR ''>'' then Some (InText [], [StartTag (rev name) []])
          else None
      | InEndName name \<Rightarrow>
          if name = [] then (if letter c then Some (InEndName [c], []) else None)
          else if name_char c then Some (InEndName (c # name), [])
          else if c = CHR ''>'' then Some (InText [], [EndTag (rev name)])
          else None
      | InTag name attrs \<Rightarrow>
          if c = CHR '' '' then Some (InTag name attrs, [])
          else if c = CHR ''>'' then Some (InText [], [StartTag name attrs])
          else if letter c then Some (InAttrName name attrs [c], [])
          else None
      | InAttrName name attrs key \<Rightarrow>
          if name_char c then Some (InAttrName name attrs (c # key), [])
          else if c = CHR ''='' \<and> rev key \<notin> fst ` set attrs then Some (AfterEq name attrs (rev key), [])
          else None
      | AfterEq name attrs key \<Rightarrow>
          if c = CHR 0x22 then Some (InValue name attrs key [], []) else None
      | InValue name attrs key v \<Rightarrow>
          if c = CHR 0x22 then Some (AfterValue name (attrs @ [(key, rev v)]), [])
          else if value_char c then Some (InValue name attrs key (c # v), [])
          else None
      | AfterValue name attrs \<Rightarrow>
          if c = CHR '' '' then Some (InTag name attrs, [])
          else if c = CHR ''>'' then Some (InText [], [StartTag name attrs])
          else None)"

fun scan :: "scanning \<Rightarrow> string \<Rightarrow> token list option" where
  "scan s [] = (case s of InText acc \<Rightarrow> Some (data acc) | _ \<Rightarrow> None)"
| "scan s (c # cs) =
     (case scan_step s c of
        None \<Rightarrow> None
      | Some (s1, tokens) \<Rightarrow> (case scan s1 cs of None \<Rightarrow> None | Some rest \<Rightarrow> Some (tokens @ rest)))"

text \<open>
  The tree builder keeps the stack of open tags, the document at its bottom. Text goes
  to the innermost open tag (\<^verbatim>\<open>endData\<close> turns a run of spaces alone into one space);
  a tag that can have no content (\<^verbatim>\<open>empty_element_tags\<close>) is closed as soon as it is
  opened; an end tag closes the open tags down to the innermost one of its name
  (\<^verbatim>\<open>_popToTag\<close>); the end of the markup closes what is still open. An end tag with
  no open tag of its name, and the tags whose content is read or kept differently
  (\<^verbatim>\<open>script\<close>, \<^verbatim>\<open>style\<close>, \<^verbatim>\<open>pre\<close> and others), are outside the fragment.
\<close>

definition empty_element_tags :: "string list" where
  "empty_element_tags =
     [''area'', ''base'', ''br'', ''col'', ''embed'', ''hr'', ''img'', ''input'', ''keygen'',
      ''link'', ''menuitem'', ''meta'', ''param'', ''source'', ''track'', ''wbr'',
      ''basefont'', ''bgsound'', ''command'', ''frame'', ''image'', ''isindex'', ''nextid'',
      ''spacer'']"

definition special_tags :: "string list" where
  "special_tags =
     [''script'', ''style'', ''textarea'', ''title'', ''pre'', ''plaintext'', ''xmp'',
      ''iframe'', ''noembed'', ''noframes'', ''noscript'', ''template'', ''rt'', ''rp'']"

type_synonym frame = "string \<times> (string \<times> string) list \<times> node list"

fun add_child :: "node \<Rightarrow> frame list \<Rightarrow> frame list" where
  "add_child n [] = []"
| "add_child n ((name, attrs, kids) # stack) = (name, attrs, kids @ [n]) # stack"

fun pop_to_tag :: "string \<Rightarrow> frame list \<Rightarrow> frame list" where
  "pop_to_tag name ((n, attrs, kids) # (pname, pattrs, pkids) # rest) =
     (if n = name then (pname, pattrs, pkids @ [Tag n attrs kids]) # rest
      else pop_to_tag name ((pname, pattrs, pkids @ [Tag n attrs kids]) # rest))"
| "pop_to_tag name stack = stack"

fun pop_all :: "frame list \<Rightarrow> frame list" where
  "pop_all ((n, attrs, kids) # (pname, pattrs, pkids) # rest) =
     pop_all ((pname, pattrs, pkids @ [Tag n attrs kids]) # rest)"
| "pop_all stack = stack"

definition end_data :: "string \<Rightarrow> string" where
  "end_data s = (if list_all (\<lambda>c. c = CHR '' '') s then '' '' else s)"

fun feed :: "frame list \<Rightarrow> token list \<Rightarrow> node list option" where
  "feed stack [] = (case pop_all stack of [(name, attrs, kids)] \<Rightarrow> Some kids | _ \<Rightarrow> None)"
| "feed stack (Data s # tokens) = feed (add_child (NavigableString (end_data s)) stack) tokens"
| "feed stack (StartTag name attrs # tokens) =
     (if name \<in> set special_tags then None
      else if name \<in> set empty_element_tags then feed (add_child (Tag name attrs []) stack) tokens
      else feed ((name, attrs, []) # stack) tokens)"
| "feed stack (EndTag name # tokens) =
     (if name \<in> fst ` set (butlast stack) then feed (pop_to_tag name stack) tokens else None)"

definition html_parser :: "string \<Rightarrow> node list option" where
  "html_parser markup =
     (case scan (InText []) markup of
        None \<Rightarrow> None
      | Some tokens \<Rightarrow> feed [(''[document]'', [], [])] tokens)"

text \<open>
  \<^verbatim>\<open>urljoin(base, ref)\<close>, for a base \<^verbatim>\<open>http://netloc/path\<close> or \<^verbatim>\<open>https://netloc/path\<close>
  and a reference that is an absolute path: segments of letters, digits and
  \<^verbatim>\<open>-_.~\<close> separated by \<^verbatim>\<open>/\<close>, none of them empty (but for the last), \<^verbatim>\<open>.\<close> or
  \<^verbatim>\<open>..\<close>, with no query and no fragment. The result is the scheme and netloc of the
  base followed by the reference. Everything else is \<^verbatim>\<open>None\<close> here.
\<close>

definition url_char :: "char \<Rightarrow> bool" where
  "url_char c = (c \<in> set ''abcdefghijklmnopqrstuvwxyzABCDEFGHIJKLMNOPQRSTUVWXYZ0123456789-_.~'')"

fun segments :: "string \<Rightarrow> string list" where
  "segments [] = [[]]"
| "segments (c # cs) =
     (if c = CHR ''/'' then [] # segments cs
      else (case segments cs of seg # segs \<Rightarrow> (c # seg) # segs | [] \<Rightarrow> [[c]]))"

definition plain_path :: "string \<Rightarrow> bool" where
  "plain_path path =
     (case segments path of
        [] \<Rightarrow> False
      | first # rest \<Rightarrow>
          first = [] \<and> rest \<noteq> [] \<and>
          list_all (\<lambda>seg. seg \<noteq> [] \<and> seg \<noteq> ''.'' \<and> seg \<noteq> ''..'' \<and> list_all url_char seg) (butlast rest) \<and>
          last rest \<noteq> ''.'' \<and> last rest \<noteq> ''..'' \<and> list_all url_char (last rest))"

definition split_base :: "string \<Rightarrow> (string \<times> string) option" where
  "split_base base =
     (let after = (if take 7 base = ''http://'' then Some (''http'', drop 7 base)
                   else if take 8 base = ''https://'' then Some (''https'', drop 8 base)
                   else None)
      in case after of
           None \<Rightarrow> None
         | Some (scheme, rest) \<Rightarrow>
             (let netloc = takeWhile (\<lambda>c. c \<noteq> CHR ''/'') rest;
                  path = dropWhile (\<lambda>c. c \<noteq> CHR ''/'') rest
              in if netloc \<noteq> [] \<and> list_all url_char netloc \<and> (path = [] \<or> plain_path path)
                 then Some (scheme, netloc) else None))"

definition url_join :: "string \<Rightarrow> string \<Rightarrow> string option" where
  "url_join base ref =
     (case split_base base of
        None \<Rightarrow> None
      | Some (scheme, netloc) \<Rightarrow>
          if plain_path ref then Some (scheme @ ''://'' @ netloc @ ref) else None)"

text \<open>
  In \<open>library_env\<close>, then, \<^verbatim>\<open>None\<close> stands for "outside the fragment" as well as for
  "raises". The markup and the page are those of the instance.
\<close>

definition library_env :: "(nat \<Rightarrow> bool) \<Rightarrow> env" where
  "library_env fails = \<lparr>parser = html_parser, urljoin = url_join, insert_fails = fails\<rparr>"

definition sample_markup :: string where
  \<open>sample_markup = ''<h1>A</h1><p>B</p><img src="/x.png"><a href="/y">Y</a>''\<close>

definition sample_net :: "nat \<Rightarrow> outcome" where
  "sample_net retry = Response 200 sample_markup"

definition sample_page :: "node list" where
  "sample_page =
     [Tag ''h1'' [] [NavigableString ''A''],
      Tag ''p'' [] [NavigableString ''B''],
      Tag ''img'' [(''src'', ''/x.png'')] [],
      Tag ''a'' [(''href'', ''/y'')] [NavigableString ''Y'']]"

section \<open>Example inputs\<close>

text \<open>
  A parsed page, libraries that answer with it, databases and networks, for the
  instances below.
\<close>

definition example_soup :: "node list" where
  "example_soup =
     [Tag ''h1'' [] [NavigableString '' A ''],
      Tag ''p'' [] [NavigableString ''B'', Tag ''a'' [(''href'', ''/y'')] [NavigableString ''Y'']],
      Tag ''img'' [(''src'', ''/x.png'')] [],
      Tag ''img'' [] [],
      Tag ''a'' [] [NavigableString ''Z'']]"

definition example_env :: "(nat \<Rightarrow> bool) \<Rightarrow> env" where
  "example_env fails =
     \<lparr>parser = (\<lambda>html. Some example_soup),
      urljoin = (\<lambda>base ref. Some (base @ ref)),
      insert_fails = fails\<rparr>"

definition second_fails :: "nat \<Rightarrow> bool" where
  "second_fails n = (n = 1)"

definition page_net :: "nat \<Rightarrow> outcome" where
  "page_net retry = Response 200 ''<html>''"

definition never_fails :: "nat \<Rightarrow> bool" where
  "never_fails n = False"

definition down_net :: "nat \<Rightarrow> outcome" where
  "down_net retry = Raised ''timeout''"

definition empty_net :: "nat \<Rightarrow> outcome" where
  "empty_net retry = (if retry = 0 then Response 503 ''busy'' else Response 200 [])"

definition example_nets :: "nat \<Rightarrow> nat \<Rightarrow> outcome" where
  "example_nets i = (if i = 0 then page_net else down_net)"

definition raising_env :: env where
  "raising_env =
     \<lparr>parser = (\<lambda>html. Some [Tag ''img'' [] [], Tag ''a'' [(''name'', ''top'')] [NavigableString ''Z'']]),
      urljoin = (\<lambda>base ref. None),
      insert_fails = never_fails\<rparr>"














section \<open>Auxiliary lemmas\<close>

lemma label_of_inj [simp]: "(label_of a = label_of b) = (a = b)"
  by (cases a; cases b; simp)

lemma all_keys: "(\<forall>key. P key) = (P Headings \<and> P Text \<and> P Images \<and> P Links)"
  by (metis category.exhaust)

lemma extends_iff:
  "extends urls st st' =
     (\<exists>new. table st' = table st @ new \<and> (\<forall>row \<in> set new. fst row \<in> set urls) \<and>
            (\<forall>key. results st' key = results st key @ stored key new))"
  by (auto simp: extends_def Let_def list_all_iff all_keys)

lemma extends_refl: "extends urls st st"
  by (simp add: extends_iff stored_def)

lemma extends_trans: "extends urls a b \<Longrightarrow> extends urls b c \<Longrightarrow> extends urls a c"
  unfolding extends_iff
  apply (elim exE conjE)
  subgoal for n1 n2
    by (rule exI [of _ "n1 @ n2"]) (auto simp: stored_def)
  done

lemma extends_emit: "extends urls st (emit e st)"
  by (simp add: extends_iff emit_def stored_def)

lemma attempt_keeps:
  "attempt net url retry st = (f, st1) \<Longrightarrow>
     table st1 = table st \<and> results st1 = results st \<and> executed st1 = executed st"
  by (auto simp: attempt_def emit_def Let_def split: outcome.splits if_splits)

lemma fetch_loop_keeps:
  "fetch_loop net url ks st = (v, st1) \<Longrightarrow>
     table st1 = table st \<and> results st1 = results st \<and> executed st1 = executed st"
proof (induction ks arbitrary: st)
  case Nil
  then show ?case by simp
next
  case (Cons k ks)
  obtain f st0 where a: "attempt net url k st = (f, st0)" by (cases "attempt net url k st")
  note keep = attempt_keeps [OF a]
  show ?case
  proof (cases f)
    case (Return x)
    with Cons.prems a keep show ?thesis by simp
  next
    case Continue
    with Cons.prems a have "fetch_loop net url ks st0 = (v, st1)" by simp
    from Cons.IH [OF this] keep show ?thesis by simp
  qed
qed

lemma fetch_url_keeps:
  "fetch_url net url st = (v, st1) \<Longrightarrow>
     table st1 = table st \<and> results st1 = results st \<and> executed st1 = executed st"
  unfolding fetch_url_def by (rule fetch_loop_keeps)

lemma insert_data_cases:
  "insert_data env url label content st =
     (if insert_fails env (executed st)
      then (Inl (DatabaseError (executed st)), st\<lparr>executed := Suc (executed st)\<rparr>)
      else (Inr (), st\<lparr>executed := Suc (executed st), table := table st @ [(url, label, content)]\<rparr>))"
  by (simp add: insert_data_def Let_def)

lemma store_items_extends:
  "store_items env url (label_of key) key items st = (r, st') \<Longrightarrow> extends [url] st st'"
proof (induction items arbitrary: st)
  case Nil
  then show ?case by (simp add: extends_refl)
next
  case (Cons item items)
  show ?case
  proof (cases "insert_fails env (executed st)")
    case True
    with Cons.prems have "st' = st\<lparr>executed := Suc (executed st)\<rparr>"
      by (simp add: insert_data_cases)
    then show ?thesis by (simp add: extends_iff stored_def)
  next
    case False
    define st2 where "st2 = st\<lparr>executed := Suc (executed st),
      table := table st @ [(url, label_of key, item)],
      results := (results st)(key := results st key @ [item])\<rparr>"
    from False Cons.prems have "store_items env url (label_of key) key items st2 = (r, st')"
      by (simp add: insert_data_cases st2_def)
    then have "extends [url] st2 st'" by (rule Cons.IH)
    moreover have "extends [url] st st2"
      unfolding extends_iff st2_def
      by (rule exI [of _ "[(url, label_of key, item)]"]) (auto simp: stored_def)
    ultimately show ?thesis by (blast intro: extends_trans)
  qed
qed


lemma process_page_rule:
  assumes run: "process_page env url html st = (r, st')"
    and rejected: "\<And>st. P st (Inl ParserRejectedMarkup) st"
    and invalid: "\<And>st. P st (Inl ValueError) st"
    and store: "\<And>key items st r st'.
      store_items env url (label_of key) key items st = (r, st') \<Longrightarrow> P st r st'"
    and seq: "\<And>a b c r. P a (Inr ()) b \<Longrightarrow> P b r c \<Longrightarrow> P a r c"
    and log: "\<And>st. P st (Inr ()) (emit (Scraped url) st)"
  shows "P st r st'"
proof (cases "parser env html")
  case None
  with run rejected show ?thesis by (auto simp: process_page_def)
next
  case (Some soup)
  have lab: "''Heading'' = label_of Headings" "''Text'' = label_of Text"
    "''Image'' = label_of Images" "''Link'' = label_of Links" by simp_all
  obtain r1 st1 where s1: "store_items env url (label_of Headings) Headings (heading_texts soup) st = (r1, st1)"
    by (cases "store_items env url (label_of Headings) Headings (heading_texts soup) st")
  note p1 = store [OF s1]
  show ?thesis
  proof (cases r1)
    case (Inl e)
    with run Some s1 p1 show ?thesis by (simp add: process_page_def)
  next
    case (Inr u1)
    obtain r2 st2 where s2: "store_items env url (label_of Text) Text (paragraph_texts soup) st1 = (r2, st2)"
      by (cases "store_items env url (label_of Text) Text (paragraph_texts soup) st1")
    have p2: "P st r2 st2" using p1 Inr store [OF s2] seq by simp
    show ?thesis
    proof (cases r2)
      case (Inl e)
      with run Some s1 s2 \<open>r1 = Inr u1\<close> p2 show ?thesis by (simp add: process_page_def)
    next
      case r2: (Inr u2)
      show ?thesis
      proof (cases "image_urls env url soup")
        case None
        have "P st (Inl ValueError) st2" using p2 r2 invalid [of st2] seq by simp
        with run Some s1 s2 \<open>r1 = Inr u1\<close> r2 None show ?thesis by (simp add: process_page_def)
      next
        case images: (Some images)
        obtain r3 st3 where s3: "store_items env url (label_of Images) Images images st2 = (r3, st3)"
          by (cases "store_items env url (label_of Images) Images images st2")
        have p3: "P st r3 st3" using p2 r2 store [OF s3] seq by simp
        show ?thesis
        proof (cases r3)
          case (Inl e)
          with run Some s1 s2 s3 \<open>r1 = Inr u1\<close> r2 images p3 show ?thesis
            by (simp add: process_page_def)
        next
          case r3: (Inr u3)
          show ?thesis
          proof (cases "link_urls env url soup")
            case None
            have "P st (Inl ValueError) st3" using p3 r3 invalid [of st3] seq by simp
            with run Some s1 s2 s3 \<open>r1 = Inr u1\<close> r2 r3 images None show ?thesis
              by (simp add: process_page_def)
          next
            case links: (Some links)
            obtain r4 st4 where s4: "store_items env url (label_of Links) Links links st3 = (r4, st4)"
              by (cases "store_items env url (label_of Links) Links links st3")
            have p4: "P st r4 st4" using p3 r3 store [OF s4] seq by simp
            show ?thesis
            proof (cases r4)
              case (Inl e)
              with run Some s1 s2 s3 s4 \<open>r1 = Inr u1\<close> r2 r3 images links p4 show ?thesis
                by (simp add: process_page_def)
            next
              case r4: (Inr u4)
              have "P st (Inr ()) (emit (Scraped url) st4)" using p4 r4 log [of st4] seq by simp
              with run Some s1 s2 s3 s4 \<open>r1 = Inr u1\<close> r2 r3 r4 images links show ?thesis
                by (simp add: process_page_def)
            qed
          qed
        qed
      qed
    qed
  qed
qed

lemma process_page_extends:
  "process_page env url html st = (r, st') \<Longrightarrow> extends [url] st st'"
  by (erule process_page_rule [where P = "\<lambda>a r b. extends [url] a b"])
     (auto intro: extends_refl extends_emit store_items_extends extends_trans)

section \<open>Properties of fetch\_url\<close>

lemma range_max_retries: "[0..<max_retries] = [0, 1, 2]"
  by (simp add: max_retries_def upt_rec)

text \<open>
  C1. A first attempt that raises is followed at once by the second request: the
  \<^verbatim>\<open>except\<close> branch logs the error and goes on, and no \<^verbatim>\<open>Sleep\<close> stands between the
  two requests. A first attempt that is answered with status 503 is followed by a sleep
  of \<open>2 ^ 0\<close> seconds before the second request.
\<close>

theorem fetch_url_exception_then_ok:
  "fetch_url (\<lambda>retry. if retry = 0 then Raised e else Response 200 body) url st =
     (Some body, st\<lparr>events := events st @ [Request url 0, RequestError url e, Request url 1]\<rparr>) \<and>
   fetch_url (\<lambda>retry. if retry = 0 then Response 503 busy else Response 200 body) url st =
     (Some body, st\<lparr>events := events st @
        [Request url 0, Warning url 503 1, Sleep 1, Request url 1]\<rparr>)"
  unfolding fetch_url_def range_max_retries
  by (simp add: attempt_def emit_def max_retries_def)

text \<open>
  C2. Three responses with status 503: three requests, the result is absent, and a
  sleep follows every one of them, the third included (1, 2 and 4 seconds). Three
  attempts that raise: three requests, the result is absent, and no sleep at all.
\<close>

theorem fetch_url_three_statuses:
  "fetch_url (\<lambda>retry. Response 503 body) url st =
     (None, st\<lparr>events := events st @
        [Request url 0, Warning url 503 1, Sleep 1,
         Request url 1, Warning url 503 2, Sleep 2,
         Request url 2, Warning url 503 4, Sleep 4]\<rparr>) \<and>
   fetch_url (\<lambda>retry. Raised e) url st =
     (None, st\<lparr>events := events st @
        [Request url 0, RequestError url e,
         Request url 1, RequestError url e,
         Request url 2, RequestError url e]\<rparr>)"
  unfolding fetch_url_def range_max_retries
  by (simp add: attempt_def emit_def max_retries_def)

section \<open>Properties of extract\_data\<close>

lemma store_items_events:
  "store_items env url label key items st = (r, st') \<Longrightarrow> events st' = events st"
  by (induction items arbitrary: st) (auto simp: insert_data_cases split: if_splits)

lemma store_items_propagates:
  "store_items env url label key items st = (r, st') \<Longrightarrow>
     executed st \<le> executed st' \<and>
     ((\<exists>n \<in> {executed st..<executed st'}. insert_fails env n) \<longrightarrow>
        (\<exists>n. r = Inl (DatabaseError n) \<and> insert_fails env n))"
proof (induction items arbitrary: st)
  case Nil
  then show ?case by simp
next
  case (Cons item items)
  show ?case
  proof (cases "insert_fails env (executed st)")
    case True
    with Cons.prems show ?thesis by (auto simp: insert_data_cases)
  next
    case False
    define st2 where "st2 = st\<lparr>executed := Suc (executed st),
      table := table st @ [(url, label, item)],
      results := (results st)(key := results st key @ [item])\<rparr>"
    from False Cons.prems have "store_items env url label key items st2 = (r, st')"
      by (simp add: insert_data_cases st2_def)
    from Cons.IH [OF this] have le: "Suc (executed st) \<le> executed st'"
      and imp: "(\<exists>n \<in> {Suc (executed st)..<executed st'}. insert_fails env n) \<longrightarrow>
        (\<exists>n. r = Inl (DatabaseError n) \<and> insert_fails env n)"
      by (simp_all add: st2_def)
    have "\<exists>n \<in> {Suc (executed st)..<executed st'}. insert_fails env n"
      if "\<exists>n \<in> {executed st..<executed st'}. insert_fails env n"
    proof -
      from that obtain n where n: "executed st \<le> n" "n < executed st'" "insert_fails env n" by auto
      with False have "n \<noteq> executed st" by auto
      with n show ?thesis by (intro bexI [of _ n]) auto
    qed
    with le imp show ?thesis by auto
  qed
qed

lemma process_page_propagates:
  assumes "process_page env url html st = (r, st')"
  shows "executed st \<le> executed st' \<and>
     ((\<exists>n \<in> {executed st..<executed st'}. insert_fails env n) \<longrightarrow>
        (\<exists>n. r = Inl (DatabaseError n) \<and> insert_fails env n))"
proof (rule process_page_rule [OF assms, where P = "\<lambda>a r b. executed a \<le> executed b \<and>
     ((\<exists>n \<in> {executed a..<executed b}. insert_fails env n) \<longrightarrow>
        (\<exists>n. r = Inl (DatabaseError n) \<and> insert_fails env n))"], goal_cases)
  case (1 st)
  then show ?case by simp
next
  case (2 st)
  then show ?case by simp
next
  case (3 key items st r st')
  then show ?case by (rule store_items_propagates)
next
  case (4 a b c r)
  have "n \<in> {executed a..<executed b} \<or> n \<in> {executed b..<executed c}"
    if "n \<in> {executed a..<executed c}" for n using that by auto
  with 4 show ?case by (auto simp del: atLeastLessThan_iff)
next
  case (5 st)
  then show ?case by (simp add: emit_def)
qed

lemma process_page_events:
  assumes "process_page env url html st = (r, st')"
  shows "\<exists>evs. events st' = events st @ evs \<and> successful_fetches net evs = 0"
proof (rule process_page_rule [OF assms, where P = "\<lambda>a r b.
    \<exists>evs. events b = events a @ evs \<and> successful_fetches net evs = 0"], goal_cases)
  case (3 key items st r st')
  then show ?case by (simp add: store_items_events successful_fetches_def)
next
  case (4 a b c r)
  then obtain e1 e2 where "events b = events a @ e1" "events c = events b @ e2"
    "successful_fetches net e1 = 0" "successful_fetches net e2 = 0" by blast
  then show ?case by (intro exI [of _ "e1 @ e2"]) (simp add: successful_fetches_def)
qed (simp_all add: successful_fetches_def emit_def)

lemma attempt_events:
  "attempt net url retry st = (f, st1) \<Longrightarrow>
     \<exists>evs. events st1 = events st @ evs \<and>
       successful_fetches net evs = (case f of Return (Some body) \<Rightarrow> 1 | _ \<Rightarrow> 0)"
  by (auto simp: attempt_def emit_def Let_def successful_fetches_def
      split: outcome.splits if_splits)

lemma fetch_loop_events:
  "fetch_loop net url ks st = (v, st1) \<Longrightarrow>
     \<exists>evs. events st1 = events st @ evs \<and>
       successful_fetches net evs = (if v = None then 0 else 1)"
proof (induction ks arbitrary: st)
  case Nil
  then show ?case by (simp add: successful_fetches_def)
next
  case (Cons k ks)
  obtain f st0 where a: "attempt net url k st = (f, st0)" by (cases "attempt net url k st")
  from attempt_events [OF a] obtain e1 where e1: "events st0 = events st @ e1"
    "successful_fetches net e1 = (case f of Return (Some body) \<Rightarrow> 1 | _ \<Rightarrow> 0)" by blast
  show ?case
  proof (cases f)
    case (Return x)
    with Cons.prems a have "v = x" "st1 = st0" by simp_all
    with e1 Return show ?thesis by (cases x) auto
  next
    case Continue
    with Cons.prems a have "fetch_loop net url ks st0 = (v, st1)" by simp
    from Cons.IH [OF this] obtain e2 where "events st1 = events st0 @ e2"
      "successful_fetches net e2 = (if v = None then 0 else 1)" by blast
    with e1 Continue show ?thesis
      by (intro exI [of _ "e1 @ e2"]) (simp add: successful_fetches_def)
  qed
qed

lemma extends_rows:
  "extends [url] st st' \<Longrightarrow> \<forall>row \<in> set (drop (length (table st)) (table st')). fst row = url"
  by (simp add: extends_def Let_def list_all_iff)

lemma on_fetched_extends:
  "on_fetched env url v st = (r, st') \<Longrightarrow> extends [url] st st'"
  by (auto simp: on_fetched_def extends_emit process_page_extends split: if_splits)

lemma extends_keeps:
  "table b = table a \<Longrightarrow> results b = results a \<Longrightarrow> extends urls b c \<Longrightarrow> extends urls a c"
  by (simp add: extends_def)

lemma extract_data_extends:
  assumes "extract_data env net url st = (r, st')"
  shows "extends [url] st st'"
proof -
  obtain v st1 where f: "fetch_url net url st = (v, st1)" by (cases "fetch_url net url st")
  with assms have "on_fetched env url v st1 = (r, st')" by (simp add: extract_data_def)
  then have "extends [url] st1 st'" by (rule on_fetched_extends)
  with fetch_url_keeps [OF f] show ?thesis by (blast intro: extends_keeps)
qed

lemma on_fetched_propagates:
  assumes "on_fetched env url v st = (r, st')"
  shows "executed st \<le> executed st' \<and>
     ((\<exists>n \<in> {executed st..<executed st'}. insert_fails env n) \<longrightarrow>
        (\<exists>n. r = Inl (DatabaseError n) \<and> insert_fails env n))"
proof (cases "truthy v")
  case True
  with assms have "process_page env url (the v) st = (r, st')" by (simp add: on_fetched_def)
  then show ?thesis by (rule process_page_propagates)
next
  case False
  with assms show ?thesis by (auto simp: on_fetched_def emit_def)
qed

lemma store_items_failing_item:
  "\<forall>j<length pre. \<not> insert_fails env (executed st + j) \<Longrightarrow>
   insert_fails env (executed st + length pre) \<Longrightarrow>
   store_items env url label key (pre @ item # post) st =
     (Inl (DatabaseError (executed st + length pre)),
      st\<lparr>results := (results st)(key := results st key @ pre),
         table := table st @ map (\<lambda>content. (url, label, content)) pre,
         executed := Suc (executed st + length pre)\<rparr>)"
proof (induction pre arbitrary: st)
  case Nil
  then show ?case by (simp add: insert_data_cases)
next
  case (Cons x pre)
  define st2 where "st2 = st\<lparr>executed := Suc (executed st),
      table := table st @ [(url, label, x)],
      results := (results st)(key := results st key @ [x])\<rparr>"
  from Cons.prems(1) have ok: "\<not> insert_fails env (executed st)" by force
  have "\<forall>j<length pre. \<not> insert_fails env (executed st2 + j)"
  proof (intro allI impI)
    fix j assume "j < length pre"
    then have "Suc j < length (x # pre)" by simp
    with Cons.prems(1) have "\<not> insert_fails env (executed st + Suc j)" by blast
    then show "\<not> insert_fails env (executed st2 + j)" by (simp add: st2_def)
  qed
  moreover from Cons.prems(2) have "insert_fails env (executed st2 + length pre)"
    by (simp add: st2_def)
  ultimately have "store_items env url label key (pre @ item # post) st2 =
     (Inl (DatabaseError (executed st2 + length pre)),
      st2\<lparr>results := (results st2)(key := results st2 key @ pre),
         table := table st2 @ map (\<lambda>content. (url, label, content)) pre,
         executed := Suc (executed st2 + length pre)\<rparr>)"
    by (rule Cons.IH)
  moreover have "store_items env url label key ((x # pre) @ item # post) st =
      store_items env url label key (pre @ item # post) st2"
    using ok by (simp add: insert_data_cases st2_def)
  moreover have "st2\<lparr>results := (results st2)(key := results st2 key @ pre),
         table := table st2 @ map (\<lambda>content. (url, label, content)) pre,
         executed := Suc (executed st2 + length pre)\<rparr> =
      st\<lparr>results := (results st)(key := results st key @ x # pre),
         table := table st @ map (\<lambda>content. (url, label, content)) (x # pre),
         executed := Suc (executed st + length (x # pre))\<rparr>"
    by (simp add: st2_def)
  moreover have "executed st2 + length pre = executed st + length (x # pre)"
    by (simp add: st2_def)
  ultimately show ?case by (simp only:)
qed

text \<open>
  C3. When the INSERT of an item raises, the exception leaves the loop with the
  items before it stored and appended and neither the failing item nor any later one
  appended. For a whole call of \<^verbatim>\<open>extract_data\<close>: when one of the INSERTs it sent
  raised, the call ends with that database error; and, whether it ends with an error
  or not, what it appended under each key of \<^verbatim>\<open>self.results\<close> is exactly the contents
  of the rows it added to the table under that key's label, in order (so no content
  whose insert failed is in the aggregate).
\<close>

theorem extract_data_storage_failure:
  "(( \<forall>j<length pre. \<not> insert_fails env (executed st + j)) \<longrightarrow>
    insert_fails env (executed st + length pre) \<longrightarrow>
      store_items env url label key (pre @ item # post) st =
        (Inl (DatabaseError (executed st + length pre)),
         st\<lparr>results := (results st)(key := results st key @ pre),
            table := table st @ map (\<lambda>content. (url, label, content)) pre,
            executed := Suc (executed st + length pre)\<rparr>)) \<and>
   (extract_data env net url st = (r, st') \<longrightarrow>
      ((\<exists>n \<in> {executed st..<executed st'}. insert_fails env n) \<longrightarrow>
         (\<exists>n. r = Inl (DatabaseError n) \<and> insert_fails env n)) \<and>
      extends [url] st st')"
proof (intro conjI impI)
  assume "\<forall>j<length pre. \<not> insert_fails env (executed st + j)"
    and "insert_fails env (executed st + length pre)"
  then show "store_items env url label key (pre @ item # post) st =
        (Inl (DatabaseError (executed st + length pre)),
         st\<lparr>results := (results st)(key := results st key @ pre),
            table := table st @ map (\<lambda>content. (url, label, content)) pre,
            executed := Suc (executed st + length pre)\<rparr>)"
    by (rule store_items_failing_item)
next
  assume run: "extract_data env net url st = (r, st')"
  then show "extends [url] st st'" by (rule extract_data_extends)
  assume bad: "\<exists>n \<in> {executed st..<executed st'}. insert_fails env n"
  obtain v st1 where f: "fetch_url net url st = (v, st1)" by (cases "fetch_url net url st")
  with run have "on_fetched env url v st1 = (r, st')" by (simp add: extract_data_def)
  from on_fetched_propagates [OF this] bad fetch_url_keeps [OF f]
  show "\<exists>n. r = Inl (DatabaseError n) \<and> insert_fails env n" by simp
qed

lemma on_fetched_events:
  assumes "on_fetched env url v st = (r, st')"
  shows "\<exists>evs. events st' = events st @ evs \<and> successful_fetches net evs = 0"
proof (cases "truthy v")
  case True
  with assms have "process_page env url (the v) st = (r, st')" by (simp add: on_fetched_def)
  then show ?thesis by (rule process_page_events)
next
  case False
  with assms show ?thesis by (auto simp: on_fetched_def emit_def successful_fetches_def)
qed

lemma on_fetched_falsy:
  "\<not> truthy v \<Longrightarrow> on_fetched env url v st = (Inr (), emit (FetchFailed url) st)"
  by (simp add: on_fetched_def)

text \<open>
  C4. When \<^verbatim>\<open>fetch_url\<close> returns \<^verbatim>\<open>None\<close>, \<^verbatim>\<open>extract_data\<close> returns normally and
  leaves the table and \<^verbatim>\<open>self.results\<close> as they were. Every row a call adds carries the
  call's URL. When a call changed the table or \<^verbatim>\<open>self.results\<close>, \<^verbatim>\<open>fetch_url\<close>
  returned a non-empty body and exactly one of the requests the call sent was answered
  with status 200.
\<close>

theorem extract_data_failed_fetch:
  assumes "extract_data env net url st = (r, st')"
  shows "(fst (fetch_url net url st) = None \<longrightarrow>
            r = Inr () \<and> table st' = table st \<and> results st' = results st) \<and>
         (\<forall>row \<in> set (drop (length (table st)) (table st')). fst row = url) \<and>
         (table st' \<noteq> table st \<or> results st' \<noteq> results st \<longrightarrow>
            (\<exists>body. fst (fetch_url net url st) = Some body \<and> body \<noteq> []) \<and>
            successful_fetches net (drop (length (events st)) (events st')) = 1)"
proof -
  obtain v st1 where f: "fetch_url net url st = (v, st1)" by (cases "fetch_url net url st")
  with assms have o: "on_fetched env url v st1 = (r, st')" by (simp add: extract_data_def)
  note keep = fetch_url_keeps [OF f]
  have absent: "r = Inr () \<and> table st' = table st \<and> results st' = results st" if "\<not> truthy v"
    using o keep that by (auto simp: on_fetched_falsy emit_def)
  have rows: "\<forall>row \<in> set (drop (length (table st)) (table st')). fst row = url"
    using extract_data_extends [OF assms] by (rule extends_rows)
  have one: "successful_fetches net (drop (length (events st)) (events st')) = 1" if "truthy v"
  proof -
    from f obtain e1 where e1: "events st1 = events st @ e1"
      "successful_fetches net e1 = (if v = None then 0 else 1)"
      unfolding fetch_url_def by (blast dest: fetch_loop_events)
    from on_fetched_events [OF o] obtain e2 where e2: "events st' = events st1 @ e2"
      "successful_fetches net e2 = 0" by blast
    from that have "v \<noteq> None" by (cases v) (simp_all add: truthy_def)
    with e1 e2 show ?thesis by (simp add: successful_fetches_def)
  qed
  have body: "\<exists>body. v = Some body \<and> body \<noteq> []" if "truthy v"
    using that by (cases v) (simp_all add: truthy_def)
  have "truthy v" if "table st' \<noteq> table st \<or> results st' \<noteq> results st"
    using absent that by blast
  with absent rows one body f show ?thesis by (auto simp: truthy_def)
qed

text \<open>
  C10. When \<^verbatim>\<open>fetch_url\<close> returns the empty string (a response with status 200 and an
  empty body), \<^verbatim>\<open>extract_data\<close> logs "Failed to fetch content" and returns; this is
  what it does with \<^verbatim>\<open>None\<close>, the parser is not called, and the table and
  \<^verbatim>\<open>self.results\<close> stay as they were.
\<close>

theorem extract_data_empty_body:
  assumes "fetch_url net url st = (Some [], st1)"
  shows "extract_data env net url st = (Inr (), emit (FetchFailed url) st1) \<and>
         on_fetched env url (Some []) st1 = on_fetched env url None st1 \<and>
         table (snd (extract_data env net url st)) = table st \<and>
         results (snd (extract_data env net url st)) = results st"
  using assms fetch_url_keeps [OF assms]
  by (simp add: extract_data_def on_fetched_def truthy_def emit_def)

lemma example_env_sel:
  "parser (example_env fails) html = Some example_soup"
  "urljoin (example_env fails) base ref = Some (base @ ref)"
  "insert_fails (example_env fails) = fails"
  by (simp_all add: example_env_def)

lemma init_sel:
  "results init = (\<lambda>key. [])" "table init = []" "executed init = 0" "events init = []"
  by (simp_all add: init_def)

lemma example_lists:
  "heading_texts example_soup = [''A'']"
  "paragraph_texts example_soup = [''BY'']"
  "image_urls (example_env fails) ''http://s'' example_soup = Some [''http://s/x.png'']"
  "link_urls (example_env fails) ''http://s'' example_soup = Some [''http://s/y'']"
  by (simp_all add: heading_texts_def paragraph_texts_def image_urls_def link_urls_def
      joined_def find_all_def example_soup_def strip_def isspace_def truthy_def example_env_sel)

lemma example_fetch:
  "fetch_url page_net ''http://s'' init =
     (Some ''<html>'', init\<lparr>events := [Request ''http://s'' 0]\<rparr>)"
  unfolding fetch_url_def range_max_retries
  by (simp add: attempt_def emit_def init_sel page_net_def)

lemma example_failing_run:
  "extract_data (example_env second_fails) page_net ''http://s'' init =
     (Inl (DatabaseError 1),
      init\<lparr>results := (\<lambda>key. [])(Headings := [''A'']),
           table := [(''http://s'', ''Heading'', ''A'')],
           executed := 2,
           events := [Request ''http://s'' 0]\<rparr>)"
  by (simp add: extract_data_def example_fetch on_fetched_def truthy_def process_page_def
      example_lists insert_data_cases example_env_sel init_sel second_fails_def)

text \<open>
  An instance: the database raises on the second INSERT. The heading is stored and
  appended, the paragraph is neither, and the call ends with the database error.
\<close>

theorem extract_data_storage_failure_witness:
  "\<not> insert_fails (example_env second_fails) 0 \<and>
   insert_fails (example_env second_fails) 1 \<and>
   store_items (example_env second_fails) ''http://s'' ''Heading'' Headings [''A'', ''B'', ''C''] init =
     (Inl (DatabaseError 1),
      init\<lparr>results := (\<lambda>key. [])(Headings := [''A'']),
           table := [(''http://s'', ''Heading'', ''A'')],
           executed := 2\<rparr>) \<and>
   fst (extract_data (example_env second_fails) page_net ''http://s'' init) =
     Inl (DatabaseError 1) \<and>
   results (snd (extract_data (example_env second_fails) page_net ''http://s'' init)) Text = [] \<and>
   extends [''http://s''] init
     (snd (extract_data (example_env second_fails) page_net ''http://s'' init))"
proof -
  let ?env = "example_env second_fails"
  let ?net = "page_net"
  have h1: "\<forall>j<length [''A'']. \<not> insert_fails ?env (executed init + j)"
    by (simp add: example_env_sel init_sel second_fails_def)
  have h2: "insert_fails ?env (executed init + length [''A''])"
    by (simp add: example_env_sel init_sel second_fails_def)
  have h3: "\<exists>n \<in> {executed init..<executed (snd (extract_data ?env ?net ''http://s'' init))}.
      insert_fails ?env n"
    by (simp add: example_failing_run example_env_sel init_sel second_fails_def)
  from extract_data_storage_failure [where pre = "[''A'']" and env = ?env and st = init
      and url = "''http://s''" and label = "''Heading''" and key = Headings and item = "''B''"
      and post = "[''C'']" and net = ?net
      and r = "fst (extract_data ?env ?net ''http://s'' init)"
      and st' = "snd (extract_data ?env ?net ''http://s'' init)"] h1 h2 h3
  show ?thesis
    by (simp add: example_failing_run example_env_sel init_sel second_fails_def)
qed

lemma example_down_fetch:
  "fetch_url down_net ''http://s'' init =
     (None, init\<lparr>events :=
        [Request ''http://s'' 0, RequestError ''http://s'' ''timeout'',
         Request ''http://s'' 1, RequestError ''http://s'' ''timeout'',
         Request ''http://s'' 2, RequestError ''http://s'' ''timeout'']\<rparr>)"
  unfolding fetch_url_def range_max_retries
  by (simp add: attempt_def emit_def init_sel down_net_def max_retries_def)

lemma example_empty_fetch:
  "fetch_url empty_net ''http://s'' init =
     (Some [], init\<lparr>events :=
        [Request ''http://s'' 0, Warning ''http://s'' 503 1, Sleep 1, Request ''http://s'' 1]\<rparr>)"
  unfolding fetch_url_def range_max_retries
  by (simp add: attempt_def emit_def init_sel empty_net_def)

lemma example_run:
  "extract_data (example_env never_fails) page_net ''http://s'' init =
     (Inr (),
      init\<lparr>results := (\<lambda>key. [])(Headings := [''A''], Text := [''BY''],
             Images := [''http://s/x.png''], Links := [''http://s/y'']),
           table := [(''http://s'', ''Heading'', ''A''), (''http://s'', ''Text'', ''BY''),
             (''http://s'', ''Image'', ''http://s/x.png''), (''http://s'', ''Link'', ''http://s/y'')],
           executed := 4,
           events := [Request ''http://s'' 0, Scraped ''http://s'']\<rparr>)"
  by (simp add: extract_data_def example_fetch on_fetched_def truthy_def process_page_def
      example_lists insert_data_cases example_env_sel init_sel never_fails_def emit_def)

text \<open>
  Two instances: a URL all of whose attempts time out, and one that answers 200 at once.
\<close>

theorem extract_data_failed_fetch_witness:
  "fst (fetch_url down_net ''http://s'' init) = None \<and>
   fst (extract_data (example_env never_fails) down_net ''http://s'' init) = Inr () \<and>
   table (snd (extract_data (example_env never_fails) down_net ''http://s'' init)) = table init \<and>
   results (snd (extract_data (example_env never_fails) down_net ''http://s'' init)) = results init \<and>
   table (snd (extract_data (example_env never_fails) page_net ''http://s'' init)) \<noteq> table init \<and>
   fst (fetch_url page_net ''http://s'' init) = Some ''<html>'' \<and>
   successful_fetches page_net
     (drop (length (events init))
        (events (snd (extract_data (example_env never_fails) page_net ''http://s'' init)))) = 1"
proof -
  let ?env = "example_env never_fails"
  have a: "extract_data ?env down_net ''http://s'' init =
      (fst (extract_data ?env down_net ''http://s'' init),
       snd (extract_data ?env down_net ''http://s'' init))" by simp
  have b: "extract_data ?env page_net ''http://s'' init =
      (fst (extract_data ?env page_net ''http://s'' init),
       snd (extract_data ?env page_net ''http://s'' init))" by simp
  have none: "fst (fetch_url down_net ''http://s'' init) = None"
    by (simp add: example_down_fetch)
  have changed: "table (snd (extract_data ?env page_net ''http://s'' init)) \<noteq> table init"
    by (simp add: example_run init_sel)
  from extract_data_failed_fetch [OF a] extract_data_failed_fetch [OF b] none changed
  show ?thesis by (simp add: example_fetch)
qed

text \<open>
  An instance: status 503, then status 200 with an empty body.
\<close>

theorem extract_data_empty_body_witness:
  "fetch_url empty_net ''http://s'' init =
     (Some [], init\<lparr>events :=
        [Request ''http://s'' 0, Warning ''http://s'' 503 1, Sleep 1, Request ''http://s'' 1]\<rparr>) \<and>
   extract_data (example_env never_fails) empty_net ''http://s'' init =
     (Inr (), init\<lparr>events :=
        [Request ''http://s'' 0, Warning ''http://s'' 503 1, Sleep 1, Request ''http://s'' 1,
         FetchFailed ''http://s'']\<rparr>) \<and>
   table (snd (extract_data (example_env never_fails) empty_net ''http://s'' init)) = [] \<and>
   results (snd (extract_data (example_env never_fails) empty_net ''http://s'' init)) = (\<lambda>key. [])"
  using extract_data_empty_body [OF example_empty_fetch, where env = "example_env never_fails"]
  by (simp add: example_empty_fetch emit_def init_sel)

section \<open>Properties of scrape\_multiple\_urls and of the comprehensions\<close>

lemma finish_case:
  "finish p = (case p of (Inl e, st) \<Rightarrow> (Inl e, st) | (Inr u, st) \<Rightarrow> (Inr Done, st))"
  by (cases p rule: finish.cases) auto

lemma gather_done:
  "list_all is_done ts \<Longrightarrow>
     gather env nets sched ts raised st =
       (case raised of Some e \<Rightarrow> Propagated e | None \<Rightarrow> Returned, st)"
proof (induction sched)
  case Nil
  then show ?case by (cases raised) simp_all
next
  case (Cons i sched)
  then have "ts ! i = Done" if "i < length ts"
    using that by (cases "ts ! i") (auto simp: list_all_length)
  with Cons show ?case by simp
qed


lemma gather_alone_from:
  "gather env nets (replicate (Suc (max_retries - retry)) 0) [Running url retry] None st =
     (case fetch_loop (nets 0) url [retry..<max_retries] st of (v, st1) \<Rightarrow>
        (case on_fetched env url v st1 of
           (Inl e, st') \<Rightarrow> (Propagated e, st')
         | (Inr u, st') \<Rightarrow> (Returned, st')))"
proof (induction "max_retries - retry" arbitrary: retry st)
  case 0
  then have "\<not> retry < max_retries" by simp
  then show ?case
    by (simp add: resume_def finish_case split: prod.splits sum.splits)
next
  case (Suc n)
  then have less: "retry < max_retries" and n: "n = max_retries - Suc retry" by simp_all
  from less have sched: "replicate (Suc (max_retries - retry)) (0::nat) =
      0 # replicate (Suc (max_retries - Suc retry)) 0"
    by (simp add: Suc_diff_Suc replicate_Suc [symmetric] del: replicate_Suc)
  obtain f st1 where a: "attempt (nets 0) url retry st = (f, st1)"
    by (cases "attempt (nets 0) url retry st")
  show ?case
  proof (cases f)
    case (Return v)
    with less a show ?thesis
      unfolding sched
      by (simp add: resume_def finish_case upt_conv_Cons gather_done
          split: prod.splits sum.splits)
  next
    case Continue
    with less a Suc.hyps(1) [OF n, of st1] show ?thesis
      unfolding sched
      by (simp add: resume_def upt_conv_Cons)
  qed
qed

text \<open>
  A single coroutine, resumed until it ends, does what \<^verbatim>\<open>extract_data\<close> does: the
  steps of the scheduler are those of the function.
\<close>

lemma gather_alone:
  "scrape_multiple_urls env nets [0, 0, 0, 0] [url] st =
     (case extract_data env (nets 0) url st of
        (Inl e, st') \<Rightarrow> (Propagated e, st')
      | (Inr u, st') \<Rightarrow> (Returned, st'))"
proof -
  have "[0, 0, 0, 0] = replicate (Suc (max_retries - 0)) (0::nat)"
    by (simp add: max_retries_def numeral_eq_Suc)
  then show ?thesis
    using gather_alone_from [of env nets 0 url st]
    by (simp add: scrape_multiple_urls_def extract_data_def fetch_url_def split: prod.splits)
qed






















































lemma input_urls_nonempty:
  "input_urls lines urls = (n, Some urls') \<Longrightarrow> urls' \<noteq> []"
proof (induction lines arbitrary: urls n)
  case Nil
  then show ?case by simp
next
  case (Cons url lines)
  show ?case
  proof (cases "url \<noteq> []")
    case True
    with Cons.prems have "input_urls lines (urls @ [url]) = (n, Some urls')" by simp
    then show ?thesis by (rule Cons.IH)
  next
    case False
    show ?thesis
    proof (cases "urls \<noteq> []")
      case True
      with False Cons.prems show ?thesis by auto
    next
      case empty: False
      obtain m r where rest: "input_urls lines urls = (m, r)" by (cases "input_urls lines urls")
      with False empty Cons.prems have "r = Some urls'" by simp
      with rest Cons.IH show ?thesis by blast
    qed
  qed
qed

text \<open>
  C5. \<^verbatim>\<open>scrape_multiple_urls\<close> called with no URL returns normally and changes
  nothing: no request, no log line, no error. An empty collection is kept out by the
  input loop of \<^verbatim>\<open>main\<close>: the list it hands over is never empty, and an empty first
  line is answered with "Please enter at least one URL." and another prompt.
\<close>

theorem scrape_multiple_urls_empty:
  "scrape_multiple_urls env nets sched [] st = (Returned, st) \<and>
   (input_urls lines [] = (n, Some urls) \<longrightarrow> urls \<noteq> []) \<and>
   input_urls ([] # lines) [] = (Suc (fst (input_urls lines [])), snd (input_urls lines []))"
proof -
  have "gather env nets sched [] None st = (Returned, st)"
    by (induction sched) simp_all
  then show ?thesis
    by (auto simp: scrape_multiple_urls_def input_urls_nonempty split: prod.splits)
qed

text \<open>
  An instance: an empty line, a URL, an empty line.
\<close>

theorem scrape_multiple_urls_empty_witness:
  "input_urls [[], ''http://s'', []] [] = (1, Some [''http://s'']) \<and>
   [''http://s''] \<noteq> ([] :: string list) \<and>
   scrape_multiple_urls (example_env never_fails) example_nets [0, 1] [] init = (Returned, init)"
  using scrape_multiple_urls_empty [of "example_env never_fails" example_nets "[0, 1]" init
      "[[], ''http://s'', []]" 1 "[''http://s'']"]
  by simp

text \<open>
  An instance: no URL, and the call returns normally with the state it was given (no
  usage error is raised).
\<close>

theorem scrape_multiple_urls_empty_counterexample:
  "scrape_multiple_urls (example_env never_fails) example_nets [0, 1] [] init = (Returned, init)"
  by (simp add: scrape_multiple_urls_def)

lemma those_length: "those xs = Some ys \<Longrightarrow> length ys = length xs"
  by (induction xs arbitrary: ys) (auto split: option.splits)

lemma those_None: "those xs = None \<Longrightarrow> None \<in> set xs"
  by (induction xs) (auto split: option.splits)

lemma joined_skip:
  "\<not> truthy (get_attr t key) \<Longrightarrow>
     joined env url key (pre @ t # post) = joined env url key (pre @ post)"
  by (simp add: joined_def)

lemma joined_length:
  "joined env url key tags = Some items \<Longrightarrow>
     length items = length (filter (\<lambda>t. truthy (get_attr t key)) tags)"
  by (auto simp: joined_def dest: those_length)

lemma joined_None:
  assumes "joined env url key tags = None"
  shows "\<exists>t \<in> set tags. \<exists>ref. get_attr t key = Some ref \<and> urljoin env url ref = None"
proof -
  from those_None [OF assms [unfolded joined_def]]
  obtain t where t: "t \<in> set tags" "truthy (get_attr t key)"
    "urljoin env url (the (get_attr t key)) = None" by auto
  from t(2) obtain ref where "get_attr t key = Some ref" by (cases "get_attr t key") (auto simp: truthy_def)
  with t show ?thesis by auto
qed

lemma joined_all_lacking:
  "\<forall>t \<in> set tags. get_attr t key = None \<Longrightarrow> joined env url key tags = Some []"
proof -
  assume "\<forall>t \<in> set tags. get_attr t key = None"
  then have "filter (\<lambda>t. truthy (get_attr t key)) tags = []"
    by (auto simp: filter_empty_conv truthy_def)
  then show ?thesis by (simp add: joined_def)
qed

text \<open>
  C7. A tag without the attribute (\<^verbatim>\<open>src\<close> for \<^verbatim>\<open>img\<close>, \<^verbatim>\<open>href\<close> for \<^verbatim>\<open>a\<close>) adds
  nothing to the list a comprehension builds and does not change whether it raises,
  wherever it stands among the tags found. The list has one item for each tag that
  carries a non-empty attribute. When a comprehension raises, a tag that carries the
  attribute made \<^verbatim>\<open>urljoin\<close> raise. A page none of whose \<^verbatim>\<open>img\<close> tags has a
  \<^verbatim>\<open>src\<close> gives the empty list of images, and likewise for links.
\<close>

theorem extract_data_skips_missing_attributes:
  "(get_attr img ''src'' = None \<longrightarrow>
      joined env url ''src'' (pre @ img # post) = joined env url ''src'' (pre @ post)) \<and>
   (get_attr link ''href'' = None \<longrightarrow>
      joined env url ''href'' (pre @ link # post) = joined env url ''href'' (pre @ post)) \<and>
   (image_urls env url soup = Some images \<longrightarrow>
      length images = length (filter (\<lambda>img. truthy (get_attr img ''src'')) (find_all [''img''] soup))) \<and>
   (link_urls env url soup = Some links \<longrightarrow>
      length links = length (filter (\<lambda>link. truthy (get_attr link ''href'')) (find_all [''a''] soup))) \<and>
   (image_urls env url soup = None \<longrightarrow>
      (\<exists>img \<in> set (find_all [''img''] soup). \<exists>src.
         get_attr img ''src'' = Some src \<and> urljoin env url src = None)) \<and>
   (link_urls env url soup = None \<longrightarrow>
      (\<exists>link \<in> set (find_all [''a''] soup). \<exists>href.
         get_attr link ''href'' = Some href \<and> urljoin env url href = None)) \<and>
   ((\<forall>img \<in> set (find_all [''img''] soup). get_attr img ''src'' = None) \<longrightarrow>
      image_urls env url soup = Some []) \<and>
   ((\<forall>link \<in> set (find_all [''a''] soup). get_attr link ''href'' = None) \<longrightarrow>
      link_urls env url soup = Some [])"
  unfolding image_urls_def link_urls_def
  by (intro conjI impI joined_skip joined_length joined_None joined_all_lacking)
     (simp_all add: truthy_def)

lemma raising_env_sel:
  "parser raising_env html = Some [Tag ''img'' [] [], Tag ''a'' [(''name'', ''top'')] [NavigableString ''Z'']]"
  "urljoin raising_env base ref = None"
  "insert_fails raising_env = never_fails"
  by (simp_all add: raising_env_def)

lemma raising_run:
  "process_page raising_env ''http://s'' ''<img><a name=top>Z</a>'' init =
     (Inr (), init\<lparr>events := [Scraped ''http://s'']\<rparr>)"
  by (simp add: process_page_def raising_env_sel heading_texts_def paragraph_texts_def
      image_urls_def link_urls_def joined_def find_all_def truthy_def emit_def init_sel)

text \<open>
  Instances: an \<^verbatim>\<open>img\<close> without \<^verbatim>\<open>src\<close> next to one with it; a page with such tags
  only, read with a \<^verbatim>\<open>urljoin\<close> that always raises.
\<close>

theorem extract_data_skips_missing_attributes_witness:
  "get_attr (Tag ''img'' [] []) ''src'' = None \<and>
   joined (example_env never_fails) ''http://s'' ''src''
     ([Tag ''img'' [(''src'', ''/x.png'')] []] @ Tag ''img'' [] [] # []) = Some [''http://s/x.png''] \<and>
   image_urls (example_env never_fails) ''http://s'' example_soup = Some [''http://s/x.png''] \<and>
   length (find_all [''img''] example_soup) = 2 \<and>
   link_urls (example_env never_fails) ''http://s'' example_soup = Some [''http://s/y''] \<and>
   length (find_all [''a''] example_soup) = 2 \<and>
   image_urls raising_env ''http://s'' example_soup = None \<and>
   image_urls raising_env ''http://s'' [Tag ''img'' [] [], Tag ''a'' [(''name'', ''top'')] [NavigableString ''Z'']] = Some [] \<and>
   link_urls raising_env ''http://s'' [Tag ''img'' [] [], Tag ''a'' [(''name'', ''top'')] [NavigableString ''Z'']] = Some [] \<and>
   process_page raising_env ''http://s'' ''<img><a name=top>Z</a>'' init =
     (Inr (), init\<lparr>events := [Scraped ''http://s'']\<rparr>)"
proof -
  let ?page = "[Tag ''img'' [] [], Tag ''a'' [(''name'', ''top'')] [NavigableString ''Z'']]"
  have lack: "get_attr (Tag ''img'' [] []) ''src'' = None" by simp
  have none: "\<forall>img \<in> set (find_all [''img''] ?page). get_attr img ''src'' = None"
    "\<forall>link \<in> set (find_all [''a''] ?page). get_attr link ''href'' = None"
    by (simp_all add: find_all_def)
  have raises: "image_urls raising_env ''http://s'' example_soup = None"
    by (simp add: image_urls_def joined_def find_all_def example_soup_def truthy_def raising_env_sel)
  from extract_data_skips_missing_attributes [of "Tag ''img'' [] []" "example_env never_fails"
      "''http://s''" "[Tag ''img'' [(''src'', ''/x.png'')] []]" "[]"]
    extract_data_skips_missing_attributes [where env = raising_env and url = "''http://s''"
      and soup = ?page] lack none raises
  show ?thesis
    by (simp add: example_lists raising_run)
       (simp add: find_all_def example_soup_def joined_def truthy_def example_env_sel)
qed

section \<open>The instance on the library models\<close>

lemma sample_tokens:
  "scan (InText []) sample_markup =
     Some [StartTag ''h1'' [], Data ''A'', EndTag ''h1'', StartTag ''p'' [],
       Data ''B'', EndTag ''p'', StartTag ''img'' [(''src'', ''/x.png'')],
       StartTag ''a'' [(''href'', ''/y'')], Data ''Y'', EndTag ''a'']"
  by (simp add: sample_markup_def scan_step_def data_def letter_def name_char_def
      text_char_def value_char_def printable_def)

lemma sample_soup: "html_parser sample_markup = Some sample_page"
  by (simp add: html_parser_def sample_tokens special_tags_def empty_element_tags_def
      end_data_def sample_page_def)

lemma sample_joins:
  "url_join ''http://s/'' ''/x.png'' = Some ''http://s/x.png''"
  "url_join ''http://s/'' ''/y'' = Some ''http://s/y''"
  by (simp_all add: url_join_def split_base_def plain_path_def url_char_def)

lemma library_env_sel:
  "parser (library_env fails) = html_parser"
  "urljoin (library_env fails) = url_join"
  "insert_fails (library_env fails) = fails"
  by (simp_all add: library_env_def)

lemma sample_lists:
  "heading_texts sample_page = [''A'']"
  "paragraph_texts sample_page = [''B'']"
  "image_urls (library_env fails) ''http://s/'' sample_page = Some [''http://s/x.png'']"
  "link_urls (library_env fails) ''http://s/'' sample_page = Some [''http://s/y'']"
  by (simp_all add: sample_page_def heading_texts_def paragraph_texts_def image_urls_def
      link_urls_def joined_def find_all_def strip_def isspace_def truthy_def
      library_env_sel sample_joins)

lemma sample_fetch:
  "fetch_url sample_net ''http://s/'' init =
     (Some sample_markup, init\<lparr>events := [Request ''http://s/'' 0]\<rparr>)"
  unfolding fetch_url_def range_max_retries
  by (simp add: attempt_def emit_def init_sel sample_net_def)

text \<open>
  C6. The markup \<^verbatim>\<open><h1>A</h1><p>B</p><img src="/x.png"><a href="/y">Y</a>\<close> at
  \<^verbatim>\<open>http://s/\<close>: the parser gives the four tags in document order; the four
  comprehensions give the headings \<^verbatim>\<open>["A"]\<close>, the paragraphs \<^verbatim>\<open>["B"]\<close>, the images
  \<^verbatim>\<open>["http://s/x.png"]\<close> and the links \<^verbatim>\<open>["http://s/y"]\<close>; and a call of
  \<^verbatim>\<open>extract_data\<close> that fetches this body stores and appends exactly these.
\<close>

theorem extract_data_sample_markup:
  "html_parser sample_markup = Some sample_page \<and>
   heading_texts sample_page = [''A''] \<and>
   paragraph_texts sample_page = [''B''] \<and>
   image_urls (library_env never_fails) ''http://s/'' sample_page = Some [''http://s/x.png''] \<and>
   link_urls (library_env never_fails) ''http://s/'' sample_page = Some [''http://s/y''] \<and>
   extract_data (library_env never_fails) sample_net ''http://s/'' init =
     (Inr (),
      init\<lparr>results := (\<lambda>key. [])(Headings := [''A''], Text := [''B''],
             Images := [''http://s/x.png''], Links := [''http://s/y'']),
           table := [(''http://s/'', ''Heading'', ''A''), (''http://s/'', ''Text'', ''B''),
             (''http://s/'', ''Image'', ''http://s/x.png''), (''http://s/'', ''Link'', ''http://s/y'')],
           executed := 4,
           events := [Request ''http://s/'' 0, Scraped ''http://s/'']\<rparr>)"
proof -
  have nonempty: "sample_markup \<noteq> []" by (simp add: sample_markup_def)
  have soup: "parser (library_env never_fails) sample_markup = Some sample_page"
    by (simp add: library_env_sel sample_soup)
  have db: "insert_fails (library_env never_fails) n = False" for n
    by (simp add: library_env_sel never_fails_def)
  have "extract_data (library_env never_fails) sample_net ''http://s/'' init =
     (Inr (),
      init\<lparr>results := (\<lambda>key. [])(Headings := [''A''], Text := [''B''],
             Images := [''http://s/x.png''], Links := [''http://s/y'']),
           table := [(''http://s/'', ''Heading'', ''A''), (''http://s/'', ''Text'', ''B''),
             (''http://s/'', ''Image'', ''http://s/x.png''), (''http://s/'', ''Link'', ''http://s/y'')],
           executed := 4,
           events := [Request ''http://s/'' 0, Scraped ''http://s/'']\<rparr>)"
    by (simp add: extract_data_def sample_fetch on_fetched_def truthy_def nonempty
        process_page_def soup sample_lists insert_data_cases db init_sel emit_def)
  with sample_soup sample_lists show ?thesis by simp
qed

end
